theory Spec2Isabelle
  imports Main "HOL-Library.Word" "HOL-Library.Signed_Division"
begin

section \<open>The Tripwire detector of Tripwire.h and Tripwire.cpp\<close>

text \<open>
  The class \<^verbatim>\<open>Tripwire\<close> turns a ranging sensor into a line-crossing detector.
  Its fields become a record, its member functions become functions that take the object
  and the outside world and return both updated.

  Integer types. \<^verbatim>\<open>unsigned long\<close> (32 bits on every Arduino target) is \<open>32 word\<close>:
  its arithmetic wraps around, as C++ defines it. A \<^verbatim>\<open>long\<close> (32 bits) or an \<^verbatim>\<open>int\<close>
  is an \<open>int\<close> of HOL, and the result of every signed addition, subtraction and negation
  is wrapped into the range of its type (\<open>wrap_long\<close>, \<open>wrap_int\<close>): C++ leaves signed
  overflow undefined, and two's complement wrap-around is what the compiled code does.
  Division of signed values truncates towards zero (\<open>sdiv\<close>). \<^verbatim>\<open>abs\<close> is Arduino's
  macro, which negates a value that is not positive.

  Function pointers. A pointer is an \<open>option\<close>, \<open>None\<close> being \<^verbatim>\<open>NULL\<close>.
  A \<^verbatim>\<open>range_function\<close> is given by the readings it returns: \<open>f k\<close> is the result of
  the call made after \<open>k\<close> earlier sensor calls. An \<^verbatim>\<open>event_callback\<close> is identified
  by a number; calling it is recorded in the world. A call through a null pointer is the
  fault \<open>NullCall\<close>.

  The leading underscore of the private members is dropped, since an Isabelle name cannot
  start with one: \<^verbatim>\<open>_get_range\<close> is \<open>get_range\<close>, and so on.
\<close>

type_synonym long = int
type_synonym ulong = "32 word"

text \<open>
  The width of \<^verbatim>\<open>int\<close> is 16 bits on the AVR boards (Uno, Nano, Mega) and 32 on the
  ARM and ESP boards. \<open>INT_BITS\<close> is set for the AVR boards; the theorems below name the
  width only through \<open>INT_MAX\<close> and \<open>INT_MIN\<close>.
\<close>

definition LONG_BITS :: nat where
  "LONG_BITS = 32"

definition INT_BITS :: nat where
  "INT_BITS = 16"

definition wrap_long :: "int \<Rightarrow> long" where
  "wrap_long k = signed_take_bit (LONG_BITS - 1) k"

definition wrap_int :: "int \<Rightarrow> int" where
  "wrap_int k = signed_take_bit (INT_BITS - 1) k"

definition INT_MAX :: int where
  "INT_MAX = 2 ^ (INT_BITS - 1) - 1"

definition INT_MIN :: int where
  "INT_MIN = - (2 ^ (INT_BITS - 1))"

text \<open>\<^verbatim>\<open>#define abs(x) ((x)>0?(x):-(x))\<close>, on a \<^verbatim>\<open>long\<close>.\<close>

definition abs_long :: "long \<Rightarrow> long" where
  "abs_long x = (if x > 0 then x else wrap_long (- x))"

type_synonym range_function = "nat \<Rightarrow> long"
type_synonym event_callback = nat

record tripwire =
  is_calibrated :: bool
  num_detections :: ulong
  distance :: long
  baseline_distance :: long
  baseline_variance :: long
  distance_threshold :: long
  min_baseline_reads :: int
  max_baseline_reads :: int
  max_baseline_variance :: long
  baseline_read_interval :: long
  min_successive_detections :: int
  last_event_width :: ulong
  event_start_time :: ulong
  event_start :: "event_callback option"
  event_end :: "event_callback option"
  get_range :: "range_function option"
  successive_detections :: int

text \<open>
  The world outside the object: how many sensor calls have been made, the millisecond
  clock, and the callbacks invoked so far, oldest first.
\<close>

record world =
  reads :: nat
  clock :: ulong
  fired :: "event_callback list"

datatype fault = NullCall

subsection \<open>The Arduino services and the calls through pointers\<close>

definition millis :: "world \<Rightarrow> ulong" where
  "millis w = clock w"

text \<open>\<^verbatim>\<open>delay\<close> takes an \<^verbatim>\<open>unsigned long\<close>; the \<^verbatim>\<open>long\<close> argument is converted.\<close>

definition delay :: "long \<Rightarrow> world \<Rightarrow> world" where
  "delay ms w = w\<lparr>clock := clock w + word_of_int ms\<rparr>"

definition call_range :: "range_function \<Rightarrow> world \<Rightarrow> long \<times> world" where
  "call_range f w = (f (reads w), w\<lparr>reads := Suc (reads w)\<rparr>)"

definition invoke :: "event_callback \<Rightarrow> world \<Rightarrow> world" where
  "invoke cb w = w\<lparr>fired := fired w @ [cb]\<rparr>"

text \<open>\<^verbatim>\<open>if (p) { (*p)(); }\<close>\<close>

definition invoke_if_set :: "event_callback option \<Rightarrow> world \<Rightarrow> world" where
  "invoke_if_set p w = (case p of None \<Rightarrow> w | Some cb \<Rightarrow> invoke cb w)"

subsection \<open>Default constants (Tripwire.h)\<close>

definition DEFAULT_DISTANCE_THRESHOLD :: long where
  "DEFAULT_DISTANCE_THRESHOLD = 70"

definition DEFAULT_MIN_BASELINE_READS :: int where
  "DEFAULT_MIN_BASELINE_READS = 20"

definition DEFAULT_MAX_BASELINE_READS :: int where
  "DEFAULT_MAX_BASELINE_READS = 40"

definition DEFAULT_MAX_BASELINE_VARIANCE :: long where
  "DEFAULT_MAX_BASELINE_VARIANCE = DEFAULT_DISTANCE_THRESHOLD"

definition DEFAULT_BASELINE_READ_INTERVAL :: long where
  "DEFAULT_BASELINE_READ_INTERVAL = 100"

definition DEFAULT_MINIMUM_SUCCESSIVE_DETECTIONS :: int where
  "DEFAULT_MINIMUM_SUCCESSIVE_DETECTIONS = 0"

subsection \<open>Constructor\<close>

text \<open>
  The constructor assigns \<^verbatim>\<open>_get_range\<close> only when its argument is not null and
  leaves the members it does not mention as the storage holds them; \<open>mem\<close> is that
  storage. An object of static storage duration starts from \<open>zeroed\<close>.
\<close>

definition zeroed :: tripwire where
  "zeroed = \<lparr>is_calibrated = False, num_detections = 0, distance = 0,
     baseline_distance = 0, baseline_variance = 0, distance_threshold = 0,
     min_baseline_reads = 0, max_baseline_reads = 0, max_baseline_variance = 0,
     baseline_read_interval = 0, min_successive_detections = 0,
     last_event_width = 0, event_start_time = 0,
     event_start = None, event_end = None, get_range = None,
     successive_detections = 0\<rparr>"

definition Tripwire :: "range_function option \<Rightarrow> tripwire \<Rightarrow> tripwire" where
  "Tripwire f mem =
     (let s = (if f \<noteq> None then mem\<lparr>get_range := f\<rparr> else mem)
      in s\<lparr>is_calibrated := False,
           distance := 0,
           baseline_distance := 0,
           baseline_variance := 0,
           distance_threshold := DEFAULT_DISTANCE_THRESHOLD,
           min_baseline_reads := DEFAULT_MIN_BASELINE_READS,
           max_baseline_reads := DEFAULT_MAX_BASELINE_READS,
           max_baseline_variance := DEFAULT_MAX_BASELINE_VARIANCE,
           baseline_read_interval := DEFAULT_BASELINE_READ_INTERVAL,
           min_successive_detections := DEFAULT_MINIMUM_SUCCESSIVE_DETECTIONS\<rparr>)"

subsection \<open>Calibration\<close>

text \<open>
  Lines 50 to 52 of Tripwire.cpp: the first reading becomes the baseline, and the variance
  is set to the baseline. The local \<^verbatim>\<open>baseline_reads\<close> starts at 1.
\<close>

definition calibrate_seed :: "range_function \<Rightarrow> tripwire \<Rightarrow> world \<Rightarrow> tripwire \<times> world" where
  "calibrate_seed f s w =
     (let (r, w1) = call_range f w;
          s1 = s\<lparr>baseline_distance := r\<rparr>;
          s2 = s1\<lparr>baseline_variance := baseline_distance s1\<rparr>
      in (s2, w1))"

text \<open>
  The \<^verbatim>\<open>while\<close> loop of lines 55 to 65. \<open>calibrate_continues\<close> is its condition,
  with the local \<^verbatim>\<open>baseline_reads\<close> as an argument; \<open>calibrate_body\<close> is one pass
  through lines 57 to 64 but for the increment of \<^verbatim>\<open>baseline_reads\<close>, which the
  recursive call makes. That increment cannot overflow, since the loop has just found
  \<^verbatim>\<open>baseline_reads\<close> below \<^verbatim>\<open>max_baseline_reads\<close>, an \<^verbatim>\<open>int\<close>; it is written
  without a wrap. \<open>f\<close> is the function \<^verbatim>\<open>_get_range\<close> points to, known to be
  non-null here.
\<close>

definition calibrate_continues :: "int \<Rightarrow> tripwire \<Rightarrow> bool" where
  "calibrate_continues baseline_reads s =
     ((baseline_reads < min_baseline_reads s \<or> baseline_variance s > max_baseline_variance s)
      \<and> baseline_reads < max_baseline_reads s)"

definition calibrate_body :: "range_function \<Rightarrow> tripwire \<Rightarrow> world \<Rightarrow> tripwire \<times> world" where
  "calibrate_body f s w =
     (let (new_range, w1) = call_range f w;
          new_variance = abs_long (wrap_long (baseline_distance s - new_range));
          s1 = s\<lparr>baseline_variance := wrap_long (baseline_variance s + new_variance) sdiv 2\<rparr>;
          s2 = s1\<lparr>baseline_distance := wrap_long (baseline_distance s1 + new_range) sdiv 2\<rparr>
      in (s2, delay (baseline_read_interval s2) w1))"

function calibrate_loop ::
  "range_function \<Rightarrow> int \<Rightarrow> tripwire \<Rightarrow> world \<Rightarrow> tripwire \<times> world" where
  "calibrate_loop f baseline_reads s w =
     (if calibrate_continues baseline_reads s
      then (case calibrate_body f s w of
              (s', w') \<Rightarrow> calibrate_loop f (baseline_reads + 1) s' w')
      else (s, w))"
  by pat_completeness auto
termination
  by (relation "measure (\<lambda>(f, n, s, w). nat (max_baseline_reads s - n))")
    (auto simp: calibrate_continues_def calibrate_body_def call_range_def)

declare calibrate_loop.simps [simp del]

definition calibrate :: "tripwire \<Rightarrow> world \<Rightarrow> tripwire \<times> world" where
  "calibrate s w =
     (let s0 = s\<lparr>is_calibrated := False\<rparr>
      in case get_range s0 of
           None \<Rightarrow> (s0, w)
         | Some f \<Rightarrow>
             if distance_threshold s0 \<noteq> 0 then
               (let (s1, w1) = calibrate_seed f s0 w;
                    (s2, w2) = calibrate_loop f 1 s1 w1
                in if baseline_variance s2 < max_baseline_variance s2
                   then (s2\<lparr>is_calibrated := True\<rparr>, w2)
                   else (s2, w2))
             else (s0, w))"

definition start :: "tripwire \<Rightarrow> world \<Rightarrow> tripwire \<times> world" where
  "start s w =
     calibrate (s\<lparr>event_start_time := 0, last_event_width := 0,
                  successive_detections := 0, num_detections := 0\<rparr>) w"

subsection \<open>Detection\<close>

text \<open>
  \<^verbatim>\<open>update\<close> calls through \<^verbatim>\<open>_get_range\<close> without testing it (line 80).
\<close>

definition update :: "tripwire \<Rightarrow> world \<Rightarrow> fault + tripwire \<times> world" where
  "update s0 w0 =
     (case get_range s0 of
        None \<Rightarrow> Inl NullCall
      | Some f \<Rightarrow>
          (let (r, w) = call_range f w0;
               s = s0\<lparr>distance := r\<rparr>
           in if wrap_long (baseline_distance s - distance s) > distance_threshold s then
                if successive_detections s = min_successive_detections s then
                  Inr (s\<lparr>successive_detections := wrap_int (successive_detections s + 1),
                         event_start_time := millis w,
                         num_detections := num_detections s + 1\<rparr>,
                       invoke_if_set (event_start s) w)
                else if successive_detections s < min_successive_detections s then
                  Inr (s\<lparr>successive_detections := wrap_int (successive_detections s + 1)\<rparr>, w)
                else Inr (s, w)
              else
                (let (s1, w1) =
                       (if successive_detections s > 0 then
                          (s\<lparr>last_event_width := millis w - event_start_time s\<rparr>,
                           invoke_if_set (event_end s) w)
                        else (s, w))
                 in Inr (s1\<lparr>successive_detections := 0\<rparr>, w1))))"

subsection \<open>Setters and reset\<close>

definition set_range_function :: "range_function option \<Rightarrow> tripwire \<Rightarrow> tripwire" where
  "set_range_function function s = (if function \<noteq> None then s\<lparr>get_range := function\<rparr> else s)"

definition set_event_start_callback :: "event_callback option \<Rightarrow> tripwire \<Rightarrow> tripwire" where
  "set_event_start_callback callback s =
     (if callback \<noteq> None then s\<lparr>event_start := callback\<rparr> else s)"

definition set_event_end_callback :: "event_callback option \<Rightarrow> tripwire \<Rightarrow> tripwire" where
  "set_event_end_callback callback s =
     (if callback \<noteq> None then s\<lparr>event_end := callback\<rparr> else s)"

definition reset_event_status :: "tripwire \<Rightarrow> tripwire" where
  "reset_event_status s = s\<lparr>successive_detections := 0\<rparr>"

subsection \<open>Sequences of calls\<close>

text \<open>
  What the owner of the object does after \<^verbatim>\<open>start()\<close>: it calls \<^verbatim>\<open>update()\<close> and
  \<^verbatim>\<open>reset_event_status()\<close>, and time passes between the calls. A fault ends the run.
\<close>

datatype call = Update | ResetEventStatus | Elapse ulong

fun step :: "call \<Rightarrow> tripwire \<times> world \<Rightarrow> fault + tripwire \<times> world" where
  "step Update (s, w) = update s w"
| "step ResetEventStatus (s, w) = Inr (reset_event_status s, w)"
| "step (Elapse d) (s, w) = Inr (s, w\<lparr>clock := clock w + d\<rparr>)"

fun run :: "call list \<Rightarrow> tripwire \<times> world \<Rightarrow> fault + tripwire \<times> world" where
  "run [] st = Inr st"
| "run (c # cs) st = (case step c st of Inl e \<Rightarrow> Inl e | Inr st' \<Rightarrow> run cs st')"

text \<open>
  The conditions of lines 83 and 86, for the reading the next \<^verbatim>\<open>update()\<close> will take:
  the sample is a detection, and it is the detection that confirms an event.
\<close>

definition detected :: "tripwire \<Rightarrow> world \<Rightarrow> bool" where
  "detected s w =
     (case get_range s of
        None \<Rightarrow> False
      | Some f \<Rightarrow> wrap_long (baseline_distance s - f (reads w)) > distance_threshold s)"

definition confirms :: "tripwire \<Rightarrow> world \<Rightarrow> bool" where
  "confirms s w = (detected s w \<and> successive_detections s = min_successive_detections s)"

text \<open>The number of \<^verbatim>\<open>update()\<close> calls of a run that confirm an event.\<close>

fun confirmed_events :: "call list \<Rightarrow> tripwire \<times> world \<Rightarrow> nat" where
  "confirmed_events [] st = 0"
| "confirmed_events (c # cs) st =
     (case step c st of
        Inl e \<Rightarrow> 0
      | Inr st' \<Rightarrow>
          (if c = Update \<and> confirms (fst st) (snd st) then 1 else 0) + confirmed_events cs st')"

text \<open>
  The deviations the calibration loop computes: \<open>deviation_exceeds f i n b m\<close> says that
  each of the \<open>n\<close> readings from call \<open>i\<close> on differs from the running baseline, which
  starts at \<open>b\<close> and is averaged with each reading as line 61 does, by more than \<open>m\<close>.
  The differences and means are those of the integers; they are what the code computes
  as long as its sums stay in the range of a \<^verbatim>\<open>long\<close>.
\<close>

fun deviation_exceeds :: "range_function \<Rightarrow> nat \<Rightarrow> nat \<Rightarrow> long \<Rightarrow> long \<Rightarrow> bool" where
  "deviation_exceeds f i 0 b m = True"
| "deviation_exceeds f i (Suc n) b m =
     (\<bar>b - f i\<bar> > m \<and> deviation_exceeds f (Suc i) n ((b + f i) sdiv 2) m)"


subsection \<open>Objects and sensors used in the examples\<close>

text \<open>
  The world at power-up; a sensor that returns the listed readings in turn and then \<open>d\<close>
  for ever; and
  a sensor that always returns the same reading.
\<close>

definition world0 :: world where
  "world0 = \<lparr>reads = 0, clock = 0, fired = []\<rparr>"

definition readings :: "long list \<Rightarrow> long \<Rightarrow> range_function" where
  "readings xs d k = (case drop k xs of [] \<Rightarrow> d | x # _ \<Rightarrow> x)"

definition constant_range :: "long \<Rightarrow> range_function" where
  "constant_range v k = v"

text \<open>
  A sensor whose readings creep away: the first is \<open>a\<close>, and each later one is 71 above
  the running baseline that calibration has computed by then (\<open>a\<close> plus 35 times the
  number of readings taken so far, when \<open>a\<close> is not negative).
\<close>

definition creeping_range :: "long \<Rightarrow> range_function" where
  "creeping_range a k = (if k = 0 then a else a + 35 * int k + 36)"

text \<open>
  An object that needs three detections in a row before it confirms an event, with an end
  callback and no start callback; its calibration takes the single reading 100.
\<close>

definition arming :: tripwire where
  "arming = set_event_end_callback (Some 2)
     ((Tripwire (Some (readings [100, 20] 100)) zeroed)
        \<lparr>min_successive_detections := 3, max_baseline_reads := 1\<rparr>)"


text \<open>
  An object on the default settings with both callbacks set and the baseline at 100, in
  front of a sensor that sees something pass.
\<close>

definition watching :: tripwire where
  "watching = set_event_start_callback (Some 1) (set_event_end_callback (Some 2)
     ((Tripwire (Some (readings [100, 100, 20, 20] 100)) zeroed)\<lparr>baseline_distance := 100\<rparr>))"

text \<open>
  An object on the default settings but for a calibration of one reading, in front of a
  sensor that reads 100 once and 20 from then on.
\<close>

definition lingering :: tripwire where
  "lingering = (Tripwire (Some (readings [100] 20)) zeroed)\<lparr>max_baseline_reads := 1\<rparr>"

text \<open>The same object when it asks for as many detections in a row as an \<^verbatim>\<open>int\<close> can hold.\<close>

definition exacting :: tripwire where
  "exacting = lingering\<lparr>min_successive_detections := INT_MAX\<rparr>"

text \<open>
  The object \<open>lingering\<close> with an end callback, and a sensor that reads 100, then 20 once,
  then 100 from then on.
\<close>

definition leaving :: tripwire where
  "leaving = set_event_end_callback (Some 2)
     ((Tripwire (Some (readings [100, 20] 100)) zeroed)\<lparr>max_baseline_reads := 1\<rparr>)"

text \<open>
  A sensor in front of which something passes again and again: it reads 100 and 20 in
  turn. \<open>patrolling\<close> is an object on the default settings, but for a calibration of one
  reading, in front of this sensor. \<open>passages n\<close> are the calls of \<^verbatim>\<open>update()\<close> that see
  \<open>n\<close> of these passages.
\<close>

definition passing_range :: range_function where
  "passing_range k = (if even k then 100 else 20)"

definition patrolling :: tripwire where
  "patrolling = (Tripwire (Some passing_range) zeroed)\<lparr>max_baseline_reads := 1\<rparr>"

definition passages :: "nat \<Rightarrow> call list" where
  "passages n = concat (replicate n [Update, Update])"

section \<open>Signed arithmetic in range\<close>

text \<open>A value in the range of its type is left as it is; one past \<open>INT_MAX\<close> is \<open>INT_MIN\<close>.\<close>

lemma wrap_long_id: "- (2 ^ 31) \<le> k \<Longrightarrow> k < 2 ^ 31 \<Longrightarrow> wrap_long k = k"
  by (simp add: wrap_long_def LONG_BITS_def signed_take_bit_int_eq_self_iff)

lemma wrap_int_id: "INT_MIN \<le> k \<Longrightarrow> k \<le> INT_MAX \<Longrightarrow> wrap_int k = k"
  by (simp add: wrap_int_def INT_MIN_def INT_MAX_def signed_take_bit_int_eq_self_iff)

lemma wrap_int_overflow: "wrap_int (INT_MAX + 1) = INT_MIN"
  by (simp add: wrap_int_def INT_MIN_def INT_MAX_def INT_BITS_def)

lemma INT_MIN_negative: "INT_MIN < 0"
  by (simp add: INT_MIN_def)

lemma INT_MAX_not_negative: "0 \<le> INT_MAX"
  by (simp add: INT_MAX_def)

lemma abs_long_in_range: "- (2 ^ 31) < k \<Longrightarrow> k < 2 ^ 31 \<Longrightarrow> abs_long k = \<bar>k\<bar>"
  by (simp add: abs_long_def wrap_long_id)

section \<open>Calibration\<close>

subsection \<open>What calibration leaves alone\<close>

text \<open>
  The loop writes \<^verbatim>\<open>baseline_variance\<close> and \<^verbatim>\<open>baseline_distance\<close> and no other
  member.
\<close>

lemma calibrate_body_frame:
  "fst (calibrate_body f s w) =
     s\<lparr>baseline_variance := baseline_variance (fst (calibrate_body f s w)),
       baseline_distance := baseline_distance (fst (calibrate_body f s w))\<rparr>"
  by (simp add: calibrate_body_def call_range_def)

lemma calibrate_loop_frame:
  "fst (calibrate_loop f n s w) =
     s\<lparr>baseline_variance := baseline_variance (fst (calibrate_loop f n s w)),
       baseline_distance := baseline_distance (fst (calibrate_loop f n s w))\<rparr>"
proof (induction f n s w rule: calibrate_loop.induct)
  case (1 f n s w)
  show ?case
  proof (cases "calibrate_continues n s")
    case True
    obtain s' w' where b: "calibrate_body f s w = (s', w')"
      by (cases "calibrate_body f s w")
    have l: "calibrate_loop f n s w = calibrate_loop f (n + 1) s' w'"
      by (subst calibrate_loop.simps) (simp add: True b)
    have s': "s' = s\<lparr>baseline_variance := baseline_variance s',
       baseline_distance := baseline_distance s'\<rparr>"
      using calibrate_body_frame [of f s w] by (simp add: b)
    note ih = 1 [OF True b [symmetric]]
    show ?thesis
      unfolding l by (subst ih, subst s', simp)
  next
    case False
    then show ?thesis
      by (subst (1 2 3) calibrate_loop.simps) simp
  qed
qed

lemma calibrate_seed_frame:
  "fst (calibrate_seed f s w) = s\<lparr>baseline_distance := f (reads w), baseline_variance := f (reads w)\<rparr>"
  by (simp add: calibrate_seed_def call_range_def)

text \<open>The equations that evaluate a calibration on a given object.\<close>

lemmas calibrate_eval =
  calibrate_def calibrate_seed_def calibrate_loop.simps calibrate_continues_def
  calibrate_body_def call_range_def delay_def Tripwire_def zeroed_def world0_def
  DEFAULT_DISTANCE_THRESHOLD_def DEFAULT_MIN_BASELINE_READS_def DEFAULT_MAX_BASELINE_READS_def
  DEFAULT_MAX_BASELINE_VARIANCE_def DEFAULT_BASELINE_READ_INTERVAL_def
  DEFAULT_MINIMUM_SUCCESSIVE_DETECTIONS_def signed_divide_int_def
  wrap_long_def abs_long_def LONG_BITS_def wrap_int_def INT_BITS_def

lemma calibrate_frame:
  "fst (calibrate s w) =
     s\<lparr>is_calibrated := is_calibrated (fst (calibrate s w)),
       baseline_variance := baseline_variance (fst (calibrate s w)),
       baseline_distance := baseline_distance (fst (calibrate s w))\<rparr>"
proof (cases "get_range s")
  case None
  then show ?thesis by (simp add: calibrate_def)
next
  case (Some f)
  show ?thesis
  proof (cases "distance_threshold s = 0")
    case True
    with Some show ?thesis by (simp add: calibrate_def)
  next
    case False
    define s1 where "s1 = fst (calibrate_seed f (s\<lparr>is_calibrated := False\<rparr>) w)"
    define w1 where "w1 = snd (calibrate_seed f (s\<lparr>is_calibrated := False\<rparr>) w)"
    define s2 where "s2 = fst (calibrate_loop f 1 s1 w1)"
    define w2 where "w2 = snd (calibrate_loop f 1 s1 w1)"
    have c: "calibrate s w =
          (if baseline_variance s2 < max_baseline_variance s2
           then (s2\<lparr>is_calibrated := True\<rparr>, w2) else (s2, w2))"
      using Some False
      by (simp add: calibrate_def Let_def s1_def w1_def s2_def w2_def split_beta)
    have "s1 = s\<lparr>is_calibrated := False, baseline_distance := f (reads w),
               baseline_variance := f (reads w)\<rparr>"
      by (simp add: s1_def calibrate_seed_frame)
    moreover have "s2 = s1\<lparr>baseline_variance := baseline_variance s2,
                           baseline_distance := baseline_distance s2\<rparr>"
      unfolding s2_def by (rule calibrate_loop_frame)
    ultimately have s2: "s2 = s\<lparr>is_calibrated := False,
        baseline_variance := baseline_variance s2, baseline_distance := baseline_distance s2\<rparr>"
      by simp
    show ?thesis
    proof (cases "baseline_variance s2 < max_baseline_variance s2")
      case True
      then have "fst (calibrate s w) = s2\<lparr>is_calibrated := True\<rparr>"
        by (simp add: c)
      then show ?thesis
        by (subst (1 2 3 4) \<open>fst (calibrate s w) = s2\<lparr>is_calibrated := True\<rparr>\<close>, subst s2, simp)
    next
      case False
      then have "fst (calibrate s w) = s2"
        by (simp add: c)
      moreover have "\<not> is_calibrated s2"
        by (subst s2) simp
      ultimately show ?thesis
        by (subst (1 2 3 4) \<open>fst (calibrate s w) = s2\<close>, subst (1) s2, simp)
    qed
  qed
qed

lemma start_runtime:
  "successive_detections (fst (start s w)) = 0"
  "num_detections (fst (start s w)) = 0"
  "min_successive_detections (fst (start s w)) = min_successive_detections s"
  "get_range (fst (start s w)) = get_range s"
  unfolding start_def by (subst calibrate_frame, simp)+

subsection \<open>Halving, and a sensor that creeps away\<close>

text \<open>Halving truncates towards zero; the mean of two values above a bound is above it.\<close>

lemma sdiv_2_nonneg: "0 \<le> (a::int) \<Longrightarrow> a sdiv 2 = a div 2"
  by (simp add: signed_divide_int_def sgn_if)

lemma sdiv_2_neg: "(a::int) < 0 \<Longrightarrow> a sdiv 2 = - ((- a) div 2)"
  by (simp add: signed_divide_int_def sgn_if)

lemma average_above:
  fixes a b m :: int
  assumes "m < a" and "m < b"
  shows "m < (a + b) sdiv 2"
proof (cases "0 \<le> a + b")
  case True
  with assms show ?thesis by (simp add: sdiv_2_nonneg)
next
  case False
  with assms show ?thesis by (simp add: sdiv_2_neg)
qed

text \<open>
  The running baseline in front of \<open>creeping_range a\<close> after \<open>i\<close> readings is \<open>a\<close> plus
  35 times \<open>i\<close>, so that every reading after the first differs from it by 71. On the
  default settings and a first reading of 0 the variance climbs from 0 to 70 and stays
  there, and the loop stops after 20 readings; with \<^verbatim>\<open>min_baseline_reads\<close> set to 2 it
  stops after 2 readings with a variance of 35.
\<close>

lemma creeping_deviation:
  "0 \<le> a \<Longrightarrow> deviation_exceeds (creeping_range a) (Suc i) n (a + 35 * int i) 70"
proof (induction n arbitrary: i)
  case 0
  show ?case by simp
next
  case (Suc n)
  have "(a + 35 * int i + creeping_range a (Suc i)) sdiv 2 = a + 35 * int (Suc i)"
    using Suc.prems by (simp add: creeping_range_def sdiv_2_nonneg)
  with Suc.IH [OF Suc.prems, of "Suc i"] show ?case
    by (simp add: creeping_range_def)
qed

lemma creeping_calibration:
  "reads (snd (calibrate (Tripwire (Some (creeping_range 0)) zeroed) world0)) = 20"
  "baseline_variance (fst (calibrate (Tripwire (Some (creeping_range 0)) zeroed) world0)) = 70"
  "reads (snd (calibrate
     ((Tripwire (Some (creeping_range 0)) zeroed)\<lparr>min_baseline_reads := 2\<rparr>) world0)) = 2"
  "is_calibrated (fst (calibrate
     ((Tripwire (Some (creeping_range 0)) zeroed)\<lparr>min_baseline_reads := 2\<rparr>) world0))"
  by (simp_all add: calibrate_eval creeping_range_def)

subsection \<open>The outcome flag\<close>

text \<open>
  C1. When a range function is set and \<^verbatim>\<open>distance_threshold\<close> is not zero,
  \<^verbatim>\<open>calibrate()\<close> returns with \<^verbatim>\<open>is_calibrated\<close> true exactly when the final
  \<^verbatim>\<open>baseline_variance\<close> is strictly below \<^verbatim>\<open>max_baseline_variance\<close>, a bound
  calibration does not change. Equal values therefore give false. \<open>calibrate\<close> is a
  total function: the loop was shown to terminate.
\<close>

theorem calibrate_sets_is_calibrated:
  assumes "get_range s = Some f" and "distance_threshold s \<noteq> 0"
  shows "is_calibrated (fst (calibrate s w))
           = (baseline_variance (fst (calibrate s w)) < max_baseline_variance (fst (calibrate s w)))
         \<and> max_baseline_variance (fst (calibrate s w)) = max_baseline_variance s"
proof -
  define s0 where "s0 = s\<lparr>is_calibrated := False\<rparr>"
  obtain s1 w1 where seed: "calibrate_seed f s0 w = (s1, w1)"
    by (cases "calibrate_seed f s0 w")
  obtain s2 w2 where loop: "calibrate_loop f 1 s1 w1 = (s2, w2)"
    by (cases "calibrate_loop f 1 s1 w1")
  have s1: "s1 = s0\<lparr>baseline_distance := f (reads w), baseline_variance := f (reads w)\<rparr>"
    using calibrate_seed_frame [of f s0 w] by (simp add: seed)
  have s2: "s2 = s1\<lparr>baseline_variance := baseline_variance s2,
                     baseline_distance := baseline_distance s2\<rparr>"
    using calibrate_loop_frame [of f 1 s1 w1] by (simp add: loop)
  have "is_calibrated s2 = is_calibrated s1" "max_baseline_variance s2 = max_baseline_variance s1"
    by (subst s2, simp)+
  then have keep: "\<not> is_calibrated s2" "max_baseline_variance s2 = max_baseline_variance s"
    by (simp_all add: s1 s0_def)
  have "calibrate s w =
          (if baseline_variance s2 < max_baseline_variance s2
           then (s2\<lparr>is_calibrated := True\<rparr>, w2) else (s2, w2))"
  proof -
    have "get_range s0 = Some f" "distance_threshold s0 \<noteq> 0"
      using assms by (simp_all add: s0_def)
    then show ?thesis
      unfolding calibrate_def s0_def [symmetric] by (simp add: seed loop)
  qed
  with keep show ?thesis
    by simp
qed

text \<open>
  C1 on the default settings with \<open>creeping_range 0\<close>: the variance ends at 70, equal to
  the bound, and the flag is false.
\<close>

theorem calibrate_sets_is_calibrated_witness:
  "get_range (Tripwire (Some (creeping_range 0)) zeroed) = Some (creeping_range 0)
   \<and> distance_threshold (Tripwire (Some (creeping_range 0)) zeroed) \<noteq> 0
   \<and> baseline_variance (fst (calibrate (Tripwire (Some (creeping_range 0)) zeroed) world0)) = 70
   \<and> max_baseline_variance (fst (calibrate (Tripwire (Some (creeping_range 0)) zeroed) world0)) = 70
   \<and> \<not> is_calibrated (fst (calibrate (Tripwire (Some (creeping_range 0)) zeroed) world0))"
proof -
  have h: "get_range (Tripwire (Some (creeping_range 0)) zeroed) = Some (creeping_range 0)"
    "distance_threshold (Tripwire (Some (creeping_range 0)) zeroed) \<noteq> 0"
    "max_baseline_variance (Tripwire (Some (creeping_range 0)) zeroed) = 70"
    by (simp_all add: Tripwire_def DEFAULT_DISTANCE_THRESHOLD_def
        DEFAULT_MAX_BASELINE_VARIANCE_def)
  from calibrate_sets_is_calibrated [OF h(1,2), of world0] h creeping_calibration(2)
  show ?thesis by simp
qed

subsection \<open>The seed of the variance\<close>

text \<open>
  C4, as amended. After the first reading, \<^verbatim>\<open>baseline_variance\<close> is that reading
  itself, sign included (line 51 copies \<^verbatim>\<open>baseline_distance\<close>, with no \<^verbatim>\<open>abs\<close>).
  It is the magnitude of the reading exactly when the reading is not negative.
\<close>

theorem seed_variance_is_raw_reading:
  "baseline_variance (fst (calibrate_seed f s w)) = f (reads w)
   \<and> baseline_distance (fst (calibrate_seed f s w)) = f (reads w)
   \<and> (baseline_variance (fst (calibrate_seed f s w)) = \<bar>f (reads w)\<bar>) = (0 \<le> f (reads w))"
  by (auto simp: calibrate_seed_frame)

text \<open>
  C4 as stated fails for a negative first reading: with a sensor that returns -5 the
  variance is seeded with -5, and the magnitude of the reading is 5.
\<close>

theorem seed_variance_counterexample:
  "baseline_variance
     (fst (calibrate_seed (constant_range (- 5)) (Tripwire (Some (constant_range (- 5))) zeroed) world0))
     = - 5
   \<and> \<bar>constant_range (- 5) (reads world0)\<bar> = 5"
  by (simp add: calibrate_seed_frame constant_range_def)

subsection \<open>A sensor that never settles\<close>

lemma calibrate_body_result:
  "calibrate_body f s w =
     (s\<lparr>baseline_variance :=
          wrap_long (baseline_variance s
            + abs_long (wrap_long (baseline_distance s - f (reads w)))) sdiv 2,
        baseline_distance := wrap_long (baseline_distance s + f (reads w)) sdiv 2\<rparr>,
      w\<lparr>reads := Suc (reads w), clock := clock w + word_of_int (baseline_read_interval s)\<rparr>)"
  by (simp add: calibrate_body_def call_range_def delay_def)

text \<open>
  While the baseline, the variance and the reading are not negative and below \<open>2 ^ 30\<close>,
  no sum of lines 58 to 61 leaves the range of a \<^verbatim>\<open>long\<close>, and the new baseline and
  variance are again not negative and below \<open>2 ^ 30\<close>.
\<close>

lemma calibrate_body_in_range:
  assumes "0 \<le> baseline_distance s" and "baseline_distance s < 2 ^ 30"
    and "0 \<le> baseline_variance s" and "baseline_variance s < 2 ^ 30"
    and "0 \<le> f (reads w)" and "f (reads w) < 2 ^ 30"
  shows "baseline_variance (fst (calibrate_body f s w)) =
           (baseline_variance s + \<bar>baseline_distance s - f (reads w)\<bar>) sdiv 2"
    and "baseline_distance (fst (calibrate_body f s w)) =
           (baseline_distance s + f (reads w)) sdiv 2"
    and "0 \<le> baseline_variance (fst (calibrate_body f s w))"
    and "baseline_variance (fst (calibrate_body f s w)) < 2 ^ 30"
    and "0 \<le> baseline_distance (fst (calibrate_body f s w))"
    and "baseline_distance (fst (calibrate_body f s w)) < 2 ^ 30"
proof -
  have d: "wrap_long (baseline_distance s - f (reads w)) = baseline_distance s - f (reads w)"
    using assms by (intro wrap_long_id) simp_all
  have a: "abs_long (baseline_distance s - f (reads w)) = \<bar>baseline_distance s - f (reads w)\<bar>"
    using assms by (intro abs_long_in_range) simp_all
  have n: "\<bar>baseline_distance s - f (reads w)\<bar> < 2 ^ 30"
    using assms by simp
  have v: "wrap_long (baseline_variance s + \<bar>baseline_distance s - f (reads w)\<bar>) =
             baseline_variance s + \<bar>baseline_distance s - f (reads w)\<bar>"
    using assms n by (intro wrap_long_id) simp_all
  have b: "wrap_long (baseline_distance s + f (reads w)) = baseline_distance s + f (reads w)"
    using assms by (intro wrap_long_id) simp_all
  show v': "baseline_variance (fst (calibrate_body f s w)) =
           (baseline_variance s + \<bar>baseline_distance s - f (reads w)\<bar>) sdiv 2"
    by (simp add: calibrate_body_result d a v)
  show b': "baseline_distance (fst (calibrate_body f s w)) =
           (baseline_distance s + f (reads w)) sdiv 2"
    by (simp add: calibrate_body_result b)
  have "0 \<le> baseline_variance s + \<bar>baseline_distance s - f (reads w)\<bar>"
    using assms by simp
  then show "0 \<le> baseline_variance (fst (calibrate_body f s w))"
    "baseline_variance (fst (calibrate_body f s w)) < 2 ^ 30"
    using assms n unfolding v' by (simp_all add: sdiv_2_nonneg)
  have "0 \<le> baseline_distance s + f (reads w)"
    using assms by simp
  then show "0 \<le> baseline_distance (fst (calibrate_body f s w))"
    "baseline_distance (fst (calibrate_body f s w)) < 2 ^ 30"
    using assms unfolding b' by (simp_all add: sdiv_2_nonneg)
qed

lemma calibrate_loop_runs_out:
  assumes "max_baseline_variance s < baseline_variance s"
    and "deviation_exceeds f (reads w) (nat (max_baseline_reads s - n))
           (baseline_distance s) (max_baseline_variance s)"
    and "0 \<le> baseline_distance s" and "baseline_distance s < 2 ^ 30"
    and "0 \<le> baseline_variance s" and "baseline_variance s < 2 ^ 30"
    and "\<forall>k<nat (max_baseline_reads s - n). 0 \<le> f (reads w + k) \<and> f (reads w + k) < 2 ^ 30"
  shows "reads (snd (calibrate_loop f n s w)) = reads w + nat (max_baseline_reads s - n)
         \<and> max_baseline_variance s < baseline_variance (fst (calibrate_loop f n s w))"
  using assms
proof (induction f n s w rule: calibrate_loop.induct)
  case (1 f n s w)
  show ?case
  proof (cases "n < max_baseline_reads s")
    case True
    define s' where "s' = fst (calibrate_body f s w)"
    define w' where "w' = snd (calibrate_body f s w)"
    have b: "calibrate_body f s w = (s', w')"
      by (simp add: s'_def w'_def)
    have c: "calibrate_continues n s"
      using True "1.prems"(1) by (simp add: calibrate_continues_def)
    have l: "calibrate_loop f n s w = calibrate_loop f (n + 1) s' w'"
      by (subst calibrate_loop.simps) (simp add: c b)
    have n: "nat (max_baseline_reads s - n) = Suc (nat (max_baseline_reads s - (n + 1)))"
      using True by simp
    have dev: "max_baseline_variance s < \<bar>baseline_distance s - f (reads w)\<bar>"
      and rest: "deviation_exceeds f (Suc (reads w)) (nat (max_baseline_reads s - (n + 1)))
             ((baseline_distance s + f (reads w)) sdiv 2) (max_baseline_variance s)"
      using "1.prems"(2) unfolding n by simp_all
    have r0: "0 \<le> f (reads w)" "f (reads w) < 2 ^ 30"
      using "1.prems"(7) unfolding n by (metis add.right_neutral zero_less_Suc)+
    have rs: "\<forall>k<nat (max_baseline_reads s - (n + 1)).
                0 \<le> f (Suc (reads w) + k) \<and> f (Suc (reads w) + k) < 2 ^ 30"
    proof (intro allI impI)
      fix k
      assume "k < nat (max_baseline_reads s - (n + 1))"
      then have "Suc k < nat (max_baseline_reads s - n)"
        unfolding n by simp
      with "1.prems"(7) have "0 \<le> f (reads w + Suc k) \<and> f (reads w + Suc k) < 2 ^ 30"
        by blast
      then show "0 \<le> f (Suc (reads w) + k) \<and> f (Suc (reads w) + k) < 2 ^ 30"
        by simp
    qed
    note step = calibrate_body_in_range [where s = s and f = f and w = w, OF "1.prems"(3,4,5,6) r0]
    have same: "max_baseline_reads s' = max_baseline_reads s"
      "max_baseline_variance s' = max_baseline_variance s"
      "reads w' = Suc (reads w)"
      by (simp_all add: s'_def w'_def calibrate_body_result)
    have "baseline_variance s' =
            (baseline_variance s + \<bar>baseline_distance s - f (reads w)\<bar>) sdiv 2"
      using step(1) by (simp add: s'_def)
    with average_above [OF "1.prems"(1) dev] have v: "max_baseline_variance s' < baseline_variance s'"
      by (simp add: same(2))
    have range: "baseline_distance s' = (baseline_distance s + f (reads w)) sdiv 2"
      "0 \<le> baseline_distance s'" "baseline_distance s' < 2 ^ 30"
      "0 \<le> baseline_variance s'" "baseline_variance s' < 2 ^ 30"
      using step by (simp_all add: s'_def)
    have "reads (snd (calibrate_loop f (n + 1) s' w')) =
            reads w' + nat (max_baseline_reads s' - (n + 1))
          \<and> max_baseline_variance s' < baseline_variance (fst (calibrate_loop f (n + 1) s' w'))"
      using rest rs range(2,3,4,5)
      by (intro "1.IH" [OF c b [symmetric] v]) (simp_all add: same range(1))
    then show ?thesis
      unfolding l n by (simp add: same)
  next
    case False
    then have "calibrate_loop f n s w = (s, w)"
      by (subst calibrate_loop.simps) (simp add: calibrate_continues_def)
    with False "1.prems"(1) show ?thesis
      by simp
  qed
qed

text \<open>
  C5, as amended. Let a range function be set, \<^verbatim>\<open>distance_threshold\<close> be nonzero and
  \<^verbatim>\<open>max_baseline_reads\<close> be at least 1. If every reading that calibration can take is
  not negative and below \<open>2 ^ 30\<close>, so that no sum of the loop overflows a \<^verbatim>\<open>long\<close>,
  the first reading is itself above \<^verbatim>\<open>max_baseline_variance\<close>, and every later reading
  differs from the running baseline by more than \<^verbatim>\<open>max_baseline_variance\<close>, then
  \<^verbatim>\<open>calibrate()\<close> takes exactly \<^verbatim>\<open>max_baseline_reads\<close> readings and ends with
  \<^verbatim>\<open>is_calibrated\<close> false. The condition on the first reading is needed because the
  variance starts as that reading, not as a deviation.
\<close>

theorem calibrate_never_settles:
  assumes "get_range s = Some f" and "distance_threshold s \<noteq> 0"
    and "1 \<le> max_baseline_reads s"
    and "\<forall>k<nat (max_baseline_reads s). 0 \<le> f (reads w + k) \<and> f (reads w + k) < 2 ^ 30"
    and "max_baseline_variance s < f (reads w)"
    and "deviation_exceeds f (Suc (reads w)) (nat (max_baseline_reads s - 1))
           (f (reads w)) (max_baseline_variance s)"
  shows "reads (snd (calibrate s w)) = reads w + nat (max_baseline_reads s)
         \<and> \<not> is_calibrated (fst (calibrate s w))"
proof -
  define s0 where "s0 = s\<lparr>is_calibrated := False\<rparr>"
  define s1 where "s1 = s0\<lparr>baseline_distance := f (reads w), baseline_variance := f (reads w)\<rparr>"
  define w1 where "w1 = w\<lparr>reads := Suc (reads w)\<rparr>"
  define s2 where "s2 = fst (calibrate_loop f 1 s1 w1)"
  define w2 where "w2 = snd (calibrate_loop f 1 s1 w1)"
  have seed: "calibrate_seed f s0 w = (s1, w1)"
    by (simp add: calibrate_seed_def call_range_def s1_def w1_def)
  have loop: "calibrate_loop f 1 s1 w1 = (s2, w2)"
    by (simp add: s2_def w2_def)
  have m: "nat (max_baseline_reads s) = Suc (nat (max_baseline_reads s - 1))"
    using assms(3) by simp
  have r0: "0 \<le> f (reads w)" "f (reads w) < 2 ^ 30"
    using assms(4) unfolding m by (metis add.right_neutral zero_less_Suc)+
  have rs: "\<forall>k<nat (max_baseline_reads s1 - 1).
              0 \<le> f (reads w1 + k) \<and> f (reads w1 + k) < 2 ^ 30"
  proof (intro allI impI)
    fix k
    assume "k < nat (max_baseline_reads s1 - 1)"
    then have "Suc k < nat (max_baseline_reads s)"
      unfolding m by (simp add: s1_def s0_def)
    with assms(4) have "0 \<le> f (reads w + Suc k) \<and> f (reads w + Suc k) < 2 ^ 30"
      by blast
    then show "0 \<le> f (reads w1 + k) \<and> f (reads w1 + k) < 2 ^ 30"
      by (simp add: w1_def)
  qed
  have "reads (snd (calibrate_loop f 1 s1 w1)) = reads w1 + nat (max_baseline_reads s1 - 1)
        \<and> max_baseline_variance s1 < baseline_variance (fst (calibrate_loop f 1 s1 w1))"
    using assms(5,6) r0 rs
    by (intro calibrate_loop_runs_out) (simp_all add: s1_def s0_def w1_def)
  then have "reads w2 = reads w1 + nat (max_baseline_reads s1 - 1)"
    and "max_baseline_variance s1 < baseline_variance s2"
    by (simp_all add: loop)
  then have r: "reads w2 = reads w + nat (max_baseline_reads s)"
    and v: "max_baseline_variance s < baseline_variance s2"
    using assms(3) by (simp_all add: s1_def s0_def w1_def)
  have frame: "s2 = s1\<lparr>baseline_variance := baseline_variance s2,
                        baseline_distance := baseline_distance s2\<rparr>"
    using calibrate_loop_frame [of f 1 s1 w1] by (simp add: loop)
  have "is_calibrated s2 = is_calibrated s1" "max_baseline_variance s2 = max_baseline_variance s1"
    by (subst frame, simp)+
  then have keep: "\<not> is_calibrated s2" "max_baseline_variance s2 = max_baseline_variance s"
    by (simp_all add: s1_def s0_def)
  have "get_range s0 = Some f" "distance_threshold s0 \<noteq> 0"
    using assms by (simp_all add: s0_def)
  then have "calibrate s w =
          (if baseline_variance s2 < max_baseline_variance s2
           then (s2\<lparr>is_calibrated := True\<rparr>, w2) else (s2, w2))"
    unfolding calibrate_def s0_def [symmetric] by (simp add: seed loop)
  with keep r v show ?thesis
    by simp
qed

text \<open>
  The amended C5 on the default settings, with a sensor that starts at 100 and creeps
  away: its 40 readings stay below 1600, and all 40 are taken.
\<close>

theorem calibrate_never_settles_witness:
  "get_range (Tripwire (Some (creeping_range 100)) zeroed) = Some (creeping_range 100)
   \<and> distance_threshold (Tripwire (Some (creeping_range 100)) zeroed) \<noteq> 0
   \<and> 1 \<le> max_baseline_reads (Tripwire (Some (creeping_range 100)) zeroed)
   \<and> creeping_range 100 (reads world0 + 39) = 1501
   \<and> max_baseline_variance (Tripwire (Some (creeping_range 100)) zeroed)
       < creeping_range 100 (reads world0)
   \<and> deviation_exceeds (creeping_range 100) (Suc (reads world0))
        (nat (max_baseline_reads (Tripwire (Some (creeping_range 100)) zeroed) - 1))
        (creeping_range 100 (reads world0))
        (max_baseline_variance (Tripwire (Some (creeping_range 100)) zeroed))
   \<and> reads (snd (calibrate (Tripwire (Some (creeping_range 100)) zeroed) world0)) = 40
   \<and> \<not> is_calibrated (fst (calibrate (Tripwire (Some (creeping_range 100)) zeroed) world0))"
proof -
  have h: "get_range (Tripwire (Some (creeping_range 100)) zeroed) = Some (creeping_range 100)"
    "distance_threshold (Tripwire (Some (creeping_range 100)) zeroed) \<noteq> 0"
    "1 \<le> max_baseline_reads (Tripwire (Some (creeping_range 100)) zeroed)"
    "\<forall>k<nat (max_baseline_reads (Tripwire (Some (creeping_range 100)) zeroed)).
       0 \<le> creeping_range 100 (reads world0 + k)
       \<and> creeping_range 100 (reads world0 + k) < 2 ^ 30"
    "max_baseline_variance (Tripwire (Some (creeping_range 100)) zeroed)
       < creeping_range 100 (reads world0)"
    "deviation_exceeds (creeping_range 100) (Suc (reads world0))
        (nat (max_baseline_reads (Tripwire (Some (creeping_range 100)) zeroed) - 1))
        (creeping_range 100 (reads world0))
        (max_baseline_variance (Tripwire (Some (creeping_range 100)) zeroed))"
    using creeping_deviation [of 100 0 39]
    by (simp_all add: Tripwire_def DEFAULT_DISTANCE_THRESHOLD_def DEFAULT_MAX_BASELINE_READS_def
        DEFAULT_MAX_BASELINE_VARIANCE_def world0_def creeping_range_def)
  have l: "creeping_range 100 (reads world0 + 39) = 1501"
    by (simp add: world0_def creeping_range_def)
  have "reads world0 + nat (max_baseline_reads (Tripwire (Some (creeping_range 100)) zeroed)) = 40"
    by (simp add: Tripwire_def DEFAULT_MAX_BASELINE_READS_def world0_def)
  with calibrate_never_settles [OF h] h(1,2,3,5,6) l show ?thesis
    by simp
qed

text \<open>
  C5 as stated fails when the first reading is small. Every reading of \<open>creeping_range 0\<close>
  after the first differs from the running baseline by 71, above the default bound of 70,
  for all the 39 readings the loop could take. With the default settings the variance
  climbs from 0 to 70 and stays there, and the loop stops after 20 readings, not 40.
  With \<^verbatim>\<open>min_baseline_reads\<close> set to 2 it stops after 2 readings with a variance of
  35, and calibration succeeds.
\<close>

theorem calibrate_settles_counterexample:
  "deviation_exceeds (creeping_range 0) (Suc (reads world0))
     (nat (max_baseline_reads (Tripwire (Some (creeping_range 0)) zeroed) - 1))
     (creeping_range 0 (reads world0))
     (max_baseline_variance (Tripwire (Some (creeping_range 0)) zeroed))
   \<and> max_baseline_reads (Tripwire (Some (creeping_range 0)) zeroed) = 40
   \<and> reads (snd (calibrate (Tripwire (Some (creeping_range 0)) zeroed) world0)) = 20
   \<and> reads (snd (calibrate
        ((Tripwire (Some (creeping_range 0)) zeroed)\<lparr>min_baseline_reads := 2\<rparr>) world0)) = 2
   \<and> is_calibrated (fst (calibrate
        ((Tripwire (Some (creeping_range 0)) zeroed)\<lparr>min_baseline_reads := 2\<rparr>) world0))"
  using creeping_deviation [of 0 0 39] creeping_calibration
  by (simp add: world0_def Tripwire_def DEFAULT_MAX_BASELINE_READS_def
      DEFAULT_MAX_BASELINE_VARIANCE_def DEFAULT_DISTANCE_THRESHOLD_def creeping_range_def)

text \<open>
  Why the amended C5 asks for readings below \<open>2 ^ 30\<close>. With readings of 2000000000 and
  0, \<^verbatim>\<open>min_baseline_reads\<close> 2 and \<^verbatim>\<open>max_baseline_reads\<close> 3, the first reading and
  every deviation are far above the bound of 70. But the sum of line 60 is 4000000000,
  which a \<^verbatim>\<open>long\<close> does not hold: the variance becomes -147483648, the loop stops after
  2 readings, and calibration succeeds.
\<close>

lemma calibrate_overflows:
  "deviation_exceeds (readings [2000000000, 0] 0) (Suc 0) (Suc (Suc 0)) 2000000000 70"
  "reads (snd (calibrate ((Tripwire (Some (readings [2000000000, 0] 0)) zeroed)
     \<lparr>min_baseline_reads := 2, max_baseline_reads := 3\<rparr>) world0)) = 2"
  "baseline_variance (fst (calibrate ((Tripwire (Some (readings [2000000000, 0] 0)) zeroed)
     \<lparr>min_baseline_reads := 2, max_baseline_reads := 3\<rparr>) world0)) = - 147483648"
  "is_calibrated (fst (calibrate ((Tripwire (Some (readings [2000000000, 0] 0)) zeroed)
     \<lparr>min_baseline_reads := 2, max_baseline_reads := 3\<rparr>) world0))"
  by (simp_all add: calibrate_eval readings_def)

section \<open>Detection\<close>

text \<open>The equations that evaluate an \<^verbatim>\<open>update()\<close>.\<close>

lemmas update_eval =
  update_def Let_def call_range_def millis_def invoke_if_set_def invoke_def

lemmas wrap_eval =
  wrap_long_def wrap_int_def LONG_BITS_def INT_BITS_def

text \<open>Calls one after the other, and the sensor \<open>readings\<close> past its list.\<close>

lemma run_append:
  "run (cs @ ds) st = (case run cs st of Inl e \<Rightarrow> Inl e | Inr st' \<Rightarrow> run ds st')"
  by (induction cs arbitrary: st) (auto split: sum.splits)

lemma readings_after: "length xs \<le> k \<Longrightarrow> readings xs d k = d"
  by (simp add: readings_def)

text \<open>
  The subtraction of line 83 wraps as well: with a baseline of 2147483647 and a reading
  of -1 the difference is -2147483648, and the sample is not a detection.
\<close>

lemma detection_overflows:
  "\<not> detected ((Tripwire (Some (constant_range (- 1))) zeroed)
        \<lparr>baseline_distance := 2147483647\<rparr>) world0"
  by (simp add: detected_def Tripwire_def constant_range_def wrap_eval
      DEFAULT_DISTANCE_THRESHOLD_def)

subsection \<open>The end of an event\<close>

text \<open>
  C2. An \<^verbatim>\<open>update()\<close> whose sample is not a detection returns with the counter at 0,
  whatever it was. When the counter was positive it first stores the clock minus
  \<^verbatim>\<open>event_start_time\<close> (unsigned, so modulo \<open>2 ^ 32\<close>) in \<^verbatim>\<open>last_event_width\<close> and calls
  the end callback if one is set. Nothing is asked of \<^verbatim>\<open>min_successive_detections\<close>:
  this happens too when the counter never reached it and the start callback was never
  called. When the counter was not positive, neither happens.
\<close>

theorem update_ends_event:
  assumes "get_range s = Some f" and "\<not> detected s w"
  shows "\<exists>s' w'. update s w = Inr (s', w')
           \<and> successive_detections s' = 0
           \<and> (0 < successive_detections s \<longrightarrow>
                last_event_width s' = clock w - event_start_time s
                \<and> fired w' = fired w @ (case event_end s of None \<Rightarrow> [] | Some cb \<Rightarrow> [cb]))
           \<and> (successive_detections s \<le> 0 \<longrightarrow>
                last_event_width s' = last_event_width s \<and> fired w' = fired w)"
  using assms
  by (auto simp: update_def Let_def detected_def call_range_def millis_def invoke_if_set_def
      invoke_def split: option.splits)

text \<open>
  C2 on an object that is still counting towards its first confirmation: after
  \<^verbatim>\<open>start()\<close> and one detection the counter is 1 of 3, no event was confirmed and no
  callback was called. The next sample is not a detection: the end callback is called, the
  width is the clock minus the \<^verbatim>\<open>event_start_time\<close> of 0 that \<^verbatim>\<open>start()\<close> left, and the
  counter is back at 0.
\<close>

lemma arming_run:
  "\<exists>s w. run [Update] (start arming world0) = Inr (s, w)
     \<and> get_range s = Some (readings [100, 20] 100) \<and> \<not> detected s w
     \<and> successive_detections s = 1 \<and> min_successive_detections s = 3
     \<and> event_end s = Some 2 \<and> event_start_time s = 0
     \<and> num_detections s = 0 \<and> fired w = [] "
  by (simp add: arming_def start_def calibrate_eval update_eval set_event_end_callback_def
       readings_def detected_def)

theorem update_ends_event_witness:
  "\<exists>s w s' w'. run [Update] (start arming world0) = Inr (s, w)
     \<and> get_range s = Some (readings [100, 20] 100) \<and> \<not> detected s w
     \<and> successive_detections s = 1 \<and> min_successive_detections s = 3
     \<and> num_detections s = 0 \<and> fired w = []
     \<and> update s w = Inr (s', w') \<and> successive_detections s' = 0
     \<and> last_event_width s' = clock w \<and> fired w' = [2]"
proof -
  from arming_run obtain s w where r: "run [Update] (start arming world0) = Inr (s, w)"
    and h: "get_range s = Some (readings [100, 20] 100)" "\<not> detected s w"
    and c: "successive_detections s = 1" "min_successive_detections s = 3"
      "event_end s = Some 2" "event_start_time s = 0" "num_detections s = 0" "fired w = []"
    by (elim exE conjE)
  from update_ends_event [OF h] obtain s' w' where u: "update s w = Inr (s', w')"
    "successive_detections s' = 0"
    "0 < successive_detections s \<longrightarrow>
       last_event_width s' = clock w - event_start_time s
       \<and> fired w' = fired w @ (case event_end s of None \<Rightarrow> [] | Some cb \<Rightarrow> [cb])"
    by (elim exE conjE)
  from u(3) c have "last_event_width s' = clock w" "fired w' = [2]"
    by simp_all
  with r h c u(1,2) show ?thesis
    by (intro exI [of _ s] exI [of _ w] exI [of _ s'] exI [of _ w']) simp
qed

subsection \<open>One passage in front of the sensor\<close>

text \<open>
  C6. With \<^verbatim>\<open>min_successive_detections\<close> 0, a baseline of 100, a threshold of 70, the
  counter and \<^verbatim>\<open>num_detections\<close> at 0 and both callbacks set, five calls of
  \<^verbatim>\<open>update()\<close> that read 100, 100, 20, 20 and 100, any time apart: the first two call
  nothing, the third calls the start callback, the fourth calls nothing, the fifth calls
  the end callback. \<^verbatim>\<open>num_detections\<close> ends at 1, and \<^verbatim>\<open>last_event_width\<close> is the time
  that passed between the third call and the fifth.
\<close>

theorem one_event_per_passage:
  assumes "get_range s = Some f"
    and "f (reads w) = 100" and "f (Suc (reads w)) = 100"
    and "f (Suc (Suc (reads w))) = 20" and "f (Suc (Suc (Suc (reads w)))) = 20"
    and "f (Suc (Suc (Suc (Suc (reads w))))) = 100"
    and "min_successive_detections s = 0" and "baseline_distance s = 100"
    and "distance_threshold s = 70"
    and "successive_detections s = 0" and "num_detections s = 0"
    and "event_start s = Some a" and "event_end s = Some b"
  shows "\<exists>s2 w2 s3 w3 s4 w4 s5 w5.
           run [Update, Elapse d1, Update, Elapse d2] (s, w) = Inr (s2, w2)
         \<and> fired w2 = fired w \<and> num_detections s2 = 0
         \<and> run [Update, Elapse d3] (s2, w2) = Inr (s3, w3)
         \<and> fired w3 = fired w @ [a] \<and> num_detections s3 = 1
         \<and> run [Update, Elapse d4] (s3, w3) = Inr (s4, w4)
         \<and> fired w4 = fired w @ [a] \<and> num_detections s4 = 1
         \<and> run [Update] (s4, w4) = Inr (s5, w5)
         \<and> fired w5 = fired w @ [a, b] \<and> num_detections s5 = 1
         \<and> last_event_width s5 = d3 + d4"
  using assms by (simp add: update_eval wrap_eval)

text \<open>C6 on the object \<open>watching\<close>, with 10, 10, 10 and 15 ms between the calls.\<close>

theorem one_event_per_passage_witness:
  "\<exists>s2 w2 s3 w3 s4 w4 s5 w5.
       get_range watching = Some (readings [100, 100, 20, 20] 100)
     \<and> min_successive_detections watching = 0 \<and> baseline_distance watching = 100
     \<and> distance_threshold watching = 70
     \<and> run [Update, Elapse 10, Update, Elapse 10] (watching, world0) = Inr (s2, w2)
     \<and> fired w2 = []
     \<and> run [Update, Elapse 10] (s2, w2) = Inr (s3, w3)
     \<and> fired w3 = [1]
     \<and> run [Update, Elapse 15] (s3, w3) = Inr (s4, w4)
     \<and> fired w4 = [1]
     \<and> run [Update] (s4, w4) = Inr (s5, w5)
     \<and> fired w5 = [1, 2] \<and> num_detections s5 = 1
     \<and> last_event_width s5 = 25"
proof -
  have h: "get_range watching = Some (readings [100, 100, 20, 20] 100)"
    "readings [100, 100, 20, 20] 100 (reads world0) = 100"
    "readings [100, 100, 20, 20] 100 (Suc (reads world0)) = 100"
    "readings [100, 100, 20, 20] 100 (Suc (Suc (reads world0))) = 20"
    "readings [100, 100, 20, 20] 100 (Suc (Suc (Suc (reads world0)))) = 20"
    "readings [100, 100, 20, 20] 100 (Suc (Suc (Suc (Suc (reads world0))))) = 100"
    "min_successive_detections watching = 0" "baseline_distance watching = 100"
    "distance_threshold watching = 70"
    "successive_detections watching = 0" "num_detections watching = 0"
    "event_start watching = Some 1" "event_end watching = Some 2"
    by (simp_all add: watching_def set_event_start_callback_def set_event_end_callback_def
        Tripwire_def zeroed_def world0_def readings_def DEFAULT_DISTANCE_THRESHOLD_def
        DEFAULT_MINIMUM_SUCCESSIVE_DETECTIONS_def)
  have w: "fired world0 = []"
    by (simp add: world0_def)
  from one_event_per_passage [OF h, of 10 10 10 15]
  obtain s2 w2 s3 w3 s4 w4 s5 w5 where
    r: "run [Update, Elapse 10, Update, Elapse 10] (watching, world0) = Inr (s2, w2)"
      "run [Update, Elapse 10] (s2, w2) = Inr (s3, w3)"
      "run [Update, Elapse 15] (s3, w3) = Inr (s4, w4)"
      "run [Update] (s4, w4) = Inr (s5, w5)"
    and e: "fired w2 = fired world0" "fired w3 = fired world0 @ [1]"
      "fired w4 = fired world0 @ [1]" "fired w5 = fired world0 @ [1, 2]"
    and n: "num_detections s5 = 1" "last_event_width s5 = 10 + 15"
    by (elim exE conjE)
  from e n have "fired w2 = []" "fired w3 = [1]" "fired w4 = [1]" "fired w5 = [1, 2]"
    "last_event_width s5 = 25"
    by (simp_all add: w)
  with r n(1) h(1,7,8,9) show ?thesis
    by (intro exI [of _ s2] exI [of _ w2] exI [of _ s3] exI [of _ w3]
        exI [of _ s4] exI [of _ w4] exI [of _ s5] exI [of _ w5] conjI)
qed

subsection \<open>The range of the counter\<close>

text \<open>
  While the counter is at most \<^verbatim>\<open>min_successive_detections\<close>, and that is below
  \<open>INT_MAX\<close>, the increment of lines 87 and 99 does not overflow.
\<close>

lemma step_counter_range:
  assumes "step c (s, w) = Inr (s', w')"
    and "0 \<le> min_successive_detections s"
    and "min_successive_detections s < INT_MAX"
    and "0 \<le> successive_detections s"
    and "successive_detections s \<le> min_successive_detections s + 1"
  shows "min_successive_detections s' = min_successive_detections s
         \<and> 0 \<le> successive_detections s'
         \<and> successive_detections s' \<le> min_successive_detections s' + 1"
proof (cases c)
  case Update
  have "wrap_int (successive_detections s + 1) = successive_detections s + 1"
    if "successive_detections s \<le> min_successive_detections s"
    using that assms(3,4) INT_MIN_negative by (intro wrap_int_id) simp_all
  with assms Update show ?thesis
    by (auto simp: update_eval split: option.splits if_splits)
next
  case ResetEventStatus
  with assms show ?thesis
    by (auto simp: reset_event_status_def)
next
  case (Elapse d)
  with assms show ?thesis
    by auto
qed

lemma run_counter_range:
  assumes "run cs (s, w) = Inr (s', w')"
    and "0 \<le> min_successive_detections s"
    and "min_successive_detections s < INT_MAX"
    and "0 \<le> successive_detections s"
    and "successive_detections s \<le> min_successive_detections s + 1"
  shows "min_successive_detections s' = min_successive_detections s
         \<and> 0 \<le> successive_detections s'
         \<and> successive_detections s' \<le> min_successive_detections s' + 1"
  using assms
proof (induction cs arbitrary: s w)
  case Nil
  then show ?case by simp
next
  case (Cons c cs)
  from Cons.prems(1) obtain s1 w1 where s: "step c (s, w) = Inr (s1, w1)"
    and r: "run cs (s1, w1) = Inr (s', w')"
    by (cases "step c (s, w)") auto
  from step_counter_range [OF s Cons.prems(2,3,4,5)]
  have "min_successive_detections s1 = min_successive_detections s"
    "0 \<le> successive_detections s1"
    "successive_detections s1 \<le> min_successive_detections s1 + 1"
    by simp_all
  with Cons.IH [OF r] Cons.prems(2,3) show ?case
    by simp
qed

text \<open>
  C10, as amended. When \<^verbatim>\<open>min_successive_detections\<close> is not negative and below
  \<open>INT_MAX\<close>, after \<^verbatim>\<open>start()\<close> and any calls of \<^verbatim>\<open>update()\<close> and
  \<^verbatim>\<open>reset_event_status()\<close>, with any time between them, the counter is between 0 and
  \<^verbatim>\<open>min_successive_detections\<close> + 1, a setting the calls leave alone. At the upper end
  of that range a further detection leaves the counter as it is.
\<close>

theorem counter_stays_in_range:
  assumes "0 \<le> min_successive_detections s"
    and "min_successive_detections s < INT_MAX"
    and "run cs (start s w) = Inr (s', w')"
  shows "0 \<le> successive_detections s'
         \<and> successive_detections s' \<le> min_successive_detections s' + 1
         \<and> min_successive_detections s' = min_successive_detections s
         \<and> (\<forall>v. detected s' v \<and> successive_detections s' = min_successive_detections s' + 1
               \<longrightarrow> (\<exists>s'' v'. update s' v = Inr (s'', v')
                     \<and> successive_detections s'' = successive_detections s'))"
proof -
  obtain s0 w0 where st: "start s w = (s0, w0)"
    by (cases "start s w")
  have "successive_detections s0 = 0" "min_successive_detections s0 = min_successive_detections s"
    using start_runtime(1,3) [of s w] by (simp_all add: st)
  with run_counter_range [of cs s0 w0 s' w'] assms
  have "min_successive_detections s' = min_successive_detections s
         \<and> 0 \<le> successive_detections s'
         \<and> successive_detections s' \<le> min_successive_detections s' + 1"
    by (simp add: st)
  moreover have "\<exists>s'' v'. update s' v = Inr (s'', v')
                     \<and> successive_detections s'' = successive_detections s'"
    if "detected s' v" "successive_detections s' = min_successive_detections s' + 1" for v
    using that by (auto simp: detected_def update_eval split: option.splits)
  ultimately show ?thesis
    by blast
qed

text \<open>
  The amended C10 on the object \<open>lingering\<close>: after two detections the counter is 1, the
  upper end of its range, and a third detection leaves it there.
\<close>

lemma lingering_run:
  "\<exists>s w. run [Update, Elapse 5, Update] (start lingering world0) = Inr (s, w)
     \<and> successive_detections s = 1 \<and> num_detections s = 1 \<and> detected s w"
  by (simp add: lingering_def start_def calibrate_eval update_eval readings_def detected_def)

theorem counter_stays_in_range_witness:
  "\<exists>s w s' w'. 0 \<le> min_successive_detections lingering
     \<and> min_successive_detections lingering < INT_MAX
     \<and> run [Update, Elapse 5, Update] (start lingering world0) = Inr (s, w)
     \<and> min_successive_detections s = 0
     \<and> successive_detections s = 1
     \<and> 0 \<le> successive_detections s
     \<and> successive_detections s \<le> min_successive_detections s + 1
     \<and> detected s w
     \<and> update s w = Inr (s', w') \<and> successive_detections s' = 1"
proof -
  have m: "min_successive_detections lingering = 0"
    by (simp add: lingering_def Tripwire_def DEFAULT_MINIMUM_SUCCESSIVE_DETECTIONS_def)
  then have h: "0 \<le> min_successive_detections lingering"
    "min_successive_detections lingering < INT_MAX"
    by (simp_all add: INT_MAX_def INT_BITS_def)
  from lingering_run obtain s w
    where r: "run [Update, Elapse 5, Update] (start lingering world0) = Inr (s, w)"
      and c: "successive_detections s = 1" and d: "detected s w"
    by (elim exE conjE)
  note t = counter_stays_in_range [OF h r]
  from t m have b: "0 \<le> successive_detections s"
    "successive_detections s \<le> min_successive_detections s + 1"
    "min_successive_detections s = 0"
    by simp_all
  from t have "detected s w \<and> successive_detections s = min_successive_detections s + 1
               \<longrightarrow> (\<exists>s'' v'. update s w = Inr (s'', v')
                     \<and> successive_detections s'' = successive_detections s)"
    by (elim conjE allE)
  with b c d obtain s' w' where u: "update s w = Inr (s', w')" "successive_detections s' = 1"
    by auto
  with h r c d b show ?thesis
    by (intro exI [of _ s] exI [of _ w] exI [of _ s'] exI [of _ w'] conjI)
qed

text \<open>
  An update in front of the sensor of \<open>exacting\<close> that finds the counter below \<open>INT_MAX\<close>
  is a detection that is not yet enough, and adds 1 to the counter.
\<close>

lemma detections_in_a_row:
  assumes "get_range s = Some (readings [100] 20)" and "baseline_distance s = 100"
    and "distance_threshold s = 70" and "min_successive_detections s = INT_MAX"
    and "0 \<le> successive_detections s" and "successive_detections s + int n \<le> INT_MAX"
    and "1 \<le> reads w"
  shows "\<exists>s' w'. run (replicate n Update) (s, w) = Inr (s', w')
     \<and> get_range s' = Some (readings [100] 20) \<and> baseline_distance s' = 100
     \<and> distance_threshold s' = 70 \<and> min_successive_detections s' = INT_MAX
     \<and> successive_detections s' = successive_detections s + int n \<and> 1 \<le> reads w'"
  using assms
proof (induction n arbitrary: s w)
  case 0
  then show ?case by simp
next
  case (Suc n)
  have r: "readings [100] 20 (reads w) = 20"
    using Suc.prems(7) by (simp add: readings_after)
  have d: "wrap_long (100 - 20) = 80"
    by (simp add: wrap_eval)
  have i: "wrap_int (successive_detections s + 1) = successive_detections s + 1"
    using Suc.prems(5,6) INT_MIN_negative by (intro wrap_int_id) simp_all
  define s1 where "s1 = s\<lparr>distance := 20, successive_detections := successive_detections s + 1\<rparr>"
  define w1 where "w1 = w\<lparr>reads := Suc (reads w)\<rparr>"
  have u: "update s w = Inr (s1, w1)"
    using Suc.prems(1,2,3,4,6) r d i by (simp add: update_eval s1_def w1_def)
  have k: "get_range s1 = Some (readings [100] 20)" "baseline_distance s1 = 100"
    "distance_threshold s1 = 70" "min_successive_detections s1 = INT_MAX"
    "0 \<le> successive_detections s1" "successive_detections s1 + int n \<le> INT_MAX"
    "1 \<le> reads w1"
    using Suc.prems by (simp_all add: s1_def w1_def)
  from Suc.IH [OF k] obtain s' w' where "run (replicate n Update) (s1, w1) = Inr (s', w')"
    "get_range s' = Some (readings [100] 20)" "baseline_distance s' = 100"
    "distance_threshold s' = 70" "min_successive_detections s' = INT_MAX"
    "successive_detections s' = successive_detections s1 + int n" "1 \<le> reads w'"
    by (elim exE conjE)
  then show ?case
    by (intro exI [of _ s'] exI [of _ w']) (simp add: u s1_def)
qed

lemma exacting_start:
  "\<exists>s w. start exacting world0 = (s, w)
     \<and> get_range s = Some (readings [100] 20) \<and> baseline_distance s = 100
     \<and> distance_threshold s = 70 \<and> min_successive_detections s = INT_MAX
     \<and> successive_detections s = 0 \<and> reads w = 1"
  by (simp add: exacting_def lingering_def start_def calibrate_eval readings_def)

text \<open>
  C10 as stated fails when \<^verbatim>\<open>min_successive_detections\<close> is \<open>INT_MAX\<close>, the largest
  \<^verbatim>\<open>int\<close>. After \<^verbatim>\<open>start()\<close> and \<open>INT_MAX\<close> detections the counter is \<open>INT_MAX\<close>; the
  next detection confirms the event, the increment of line 87 overflows, and the counter
  is \<open>INT_MIN\<close>, below 0.
\<close>

theorem counter_overflows_counterexample:
  "\<exists>s w. 0 \<le> min_successive_detections exacting
     \<and> run (replicate (nat INT_MAX) Update @ [Update]) (start exacting world0) = Inr (s, w)
     \<and> successive_detections s = INT_MIN
     \<and> successive_detections s < 0"
proof -
  from exacting_start obtain s0 w0 where st: "start exacting world0 = (s0, w0)"
    and i: "get_range s0 = Some (readings [100] 20)" "baseline_distance s0 = 100"
      "distance_threshold s0 = 70" "min_successive_detections s0 = INT_MAX"
    and z: "successive_detections s0 = 0" and rd: "reads w0 = 1"
    by (elim exE conjE)
  have p: "0 \<le> successive_detections s0" "successive_detections s0 + int (nat INT_MAX) \<le> INT_MAX"
    "1 \<le> reads w0"
    using z rd INT_MAX_not_negative by simp_all
  from detections_in_a_row [OF i p] obtain s1 w1
    where r: "run (replicate (nat INT_MAX) Update) (s0, w0) = Inr (s1, w1)"
      and i1: "get_range s1 = Some (readings [100] 20)" "baseline_distance s1 = 100"
        "distance_threshold s1 = 70" "min_successive_detections s1 = INT_MAX"
      and c1: "successive_detections s1 = successive_detections s0 + int (nat INT_MAX)"
      and r1: "1 \<le> reads w1"
    by (elim exE conjE)
  from c1 z INT_MAX_not_negative have c: "successive_detections s1 = INT_MAX"
    by simp
  have rr: "readings [100] 20 (reads w1) = 20"
    using r1 by (simp add: readings_after)
  have d: "wrap_long (100 - 20) = 80"
    by (simp add: wrap_eval)
  define s2 where "s2 = s1\<lparr>distance := 20, successive_detections := INT_MIN,
    event_start_time := clock w1, num_detections := num_detections s1 + 1\<rparr>"
  have u: "update s1 w1 = Inr (s2, invoke_if_set (event_start s1) (w1\<lparr>reads := Suc (reads w1)\<rparr>))"
    using i1 c rr d wrap_int_overflow
    by (simp add: update_def Let_def call_range_def millis_def s2_def)
  have m: "0 \<le> min_successive_detections exacting"
    using INT_MAX_not_negative by (simp add: exacting_def)
  have "run (replicate (nat INT_MAX) Update @ [Update]) (start exacting world0)
          = Inr (s2, invoke_if_set (event_start s1) (w1\<lparr>reads := Suc (reads w1)\<rparr>))"
    unfolding st run_append by (simp add: r u)
  moreover have "successive_detections s2 = INT_MIN" "successive_detections s2 < 0"
    using INT_MIN_negative by (simp_all add: s2_def)
  ultimately show ?thesis
    using m by (intro exI [of _ s2]
        exI [of _ "invoke_if_set (event_start s1) (w1\<lparr>reads := Suc (reads w1)\<rparr>)"] conjI)
qed

subsection \<open>The count of detections\<close>

lemma step_num_detections:
  assumes "step c (s, w) = Inr (s', w')"
  shows "num_detections s' =
           (if c = Update \<and> confirms s w then num_detections s + 1 else num_detections s)"
proof (cases c)
  case Update
  with assms show ?thesis
    by (auto simp: update_eval confirms_def detected_def split: option.splits if_splits)
next
  case ResetEventStatus
  with assms show ?thesis
    by (auto simp: reset_event_status_def)
next
  case (Elapse d)
  with assms show ?thesis
    by auto
qed

lemma run_num_detections:
  "run cs st = Inr st' \<Longrightarrow>
     num_detections (fst st') = num_detections (fst st) + of_nat (confirmed_events cs st)"
proof (induction cs arbitrary: st)
  case Nil
  then show ?case by simp
next
  case (Cons c cs)
  from Cons.prems obtain st1 where s: "step c st = Inr st1" and r: "run cs st1 = Inr st'"
    by (cases "step c st") auto
  have "num_detections (fst st1) =
          (if c = Update \<and> confirms (fst st) (snd st) then num_detections (fst st) + 1
           else num_detections (fst st))"
    using step_num_detections [of c "fst st" "snd st" "fst st1" "snd st1"] s by simp
  with Cons.IH [OF r] s show ?case
    by simp
qed

lemma word32_no_wrap:
  fixes x :: ulong
  assumes "x \<noteq> 4294967295"
  shows "x \<le> x + 1"
proof -
  have "(- 1 :: ulong) = 4294967295"
    by simp
  with assms have "x \<noteq> - 1"
    by (simp only: not_False_eq_True)
  then have "\<not> x + 1 \<le> x"
    by (simp add: inc_less_eq_self_iff_eq)
  then show ?thesis
    by simp
qed

text \<open>
  C7, as amended. Take any calls of \<^verbatim>\<open>update()\<close> and \<^verbatim>\<open>reset_event_status()\<close> after
  \<^verbatim>\<open>start()\<close>, with any time between them, and any one of them, \<open>c\<close>. Before it,
  \<^verbatim>\<open>num_detections\<close> is the number of calls so far that confirmed an event, modulo
  \<open>2 ^ 32\<close>. The call adds 1, modulo \<open>2 ^ 32\<close>, when it is an \<^verbatim>\<open>update()\<close> that takes
  a detection with the counter equal to \<^verbatim>\<open>min_successive_detections\<close>, and changes
  nothing otherwise. So \<^verbatim>\<open>num_detections\<close> does not decrease, unless it stands at
  4294967295, the largest \<^verbatim>\<open>unsigned long\<close>.
\<close>

theorem num_detections_counts_confirmations:
  assumes "run (cs @ [c]) (start s w) = Inr (s2, w2)"
  shows "\<exists>s1 w1. run cs (start s w) = Inr (s1, w1)
           \<and> num_detections s1 = of_nat (confirmed_events cs (start s w))
           \<and> num_detections s2 =
               (if c = Update \<and> confirms s1 w1 then num_detections s1 + 1
                else num_detections s1)
           \<and> (num_detections s1 \<noteq> 4294967295 \<longrightarrow> num_detections s1 \<le> num_detections s2)"
proof -
  from assms obtain s1 w1 where r: "run cs (start s w) = Inr (s1, w1)"
    and l: "step c (s1, w1) = Inr (s2, w2)"
    by (auto simp: run_append split: sum.splits)
  have "num_detections s1 = num_detections (fst (start s w))
          + of_nat (confirmed_events cs (start s w))"
    using run_num_detections [OF r] by simp
  then have n: "num_detections s1 = of_nat (confirmed_events cs (start s w))"
    by (simp add: start_runtime)
  have e: "num_detections s2 =
             (if c = Update \<and> confirms s1 w1 then num_detections s1 + 1
              else num_detections s1)"
    by (rule step_num_detections [OF l])
  have "num_detections s1 \<le> num_detections s2" if "num_detections s1 \<noteq> 4294967295"
    using word32_no_wrap [OF that] by (simp add: e)
  with r n e show ?thesis
    by (intro exI [of _ s1] exI [of _ w1]) simp
qed

text \<open>
  The amended C7 on the object \<open>patrolling\<close>: after one passage one event has been
  confirmed and \<^verbatim>\<open>num_detections\<close> is 1; the next call confirms a second event and makes
  it 2.
\<close>

theorem num_detections_counts_confirmations_witness:
  "\<exists>s1 w1 s2 w2.
      run (passages 1 @ [Update]) (start patrolling world0)
        = Inr (s2, w2)
    \<and> run (passages 1) (start patrolling world0) = Inr (s1, w1)
    \<and> confirmed_events (passages 1) (start patrolling world0) = 1
    \<and> confirms s1 w1
    \<and> num_detections s1 = 1 \<and> num_detections s2 = 2
    \<and> num_detections s1 \<le> num_detections s2"
proof -
  have a: "\<exists>s2 w2. run (passages 1 @ [Update])
      (start patrolling world0) = Inr (s2, w2)"
    by (simp add: patrolling_def passages_def start_def calibrate_eval update_eval passing_range_def)
  then obtain s2 w2 where r2: "run (passages 1 @ [Update])
      (start patrolling world0) = Inr (s2, w2)"
    by (elim exE)
  have ce: "confirmed_events (passages 1)
      (start patrolling world0) = 1"
    by (simp add: patrolling_def passages_def start_def calibrate_eval update_eval passing_range_def
        confirms_def detected_def)
  from num_detections_counts_confirmations [OF r2] obtain s1 w1
    where r1: "run (passages 1) (start patrolling world0)
                 = Inr (s1, w1)"
      and n1: "num_detections s1 = of_nat (confirmed_events (passages 1)
                 (start patrolling world0))"
      and n2: "num_detections s2 =
               (if Update = Update \<and> confirms s1 w1 then num_detections s1 + 1
                else num_detections s1)"
      and m: "num_detections s1 \<noteq> 4294967295 \<longrightarrow> num_detections s1 \<le> num_detections s2"
    by (elim exE conjE)
  have "run (passages 1) (start patrolling world0) = Inr (s1, w1)
        \<longrightarrow> confirms s1 w1"
    by (auto simp: patrolling_def passages_def start_def calibrate_eval update_eval
        passing_range_def confirms_def detected_def)
  with r1 have c: "confirms s1 w1"
    by simp
  from n1 ce have o: "num_detections s1 = 1"
    by simp
  with n2 c have t: "num_detections s2 = 2"
    by simp
  from m o have "num_detections s1 \<le> num_detections s2"
    by simp
  with r2 r1 ce c o t show ?thesis
    by (intro exI [of _ s1] exI [of _ w1] exI [of _ s2] exI [of _ w2] conjI)
qed

text \<open>
  Each passage in front of \<open>patrolling\<close> is two calls of \<^verbatim>\<open>update()\<close>, a detection
  that confirms an event and a sample that ends it, and adds 1 to \<^verbatim>\<open>num_detections\<close>.
\<close>

lemma passing_start:
  "\<exists>s w. start patrolling world0 = (s, w)
     \<and> get_range s = Some passing_range \<and> baseline_distance s = 100
     \<and> distance_threshold s = 70 \<and> min_successive_detections s = 0
     \<and> successive_detections s = 0 \<and> num_detections s = 0 \<and> reads w = 1"
  by (simp add: patrolling_def start_def calibrate_eval passing_range_def)

lemma one_passage:
  assumes "get_range s = Some passing_range" and "baseline_distance s = 100"
    and "distance_threshold s = 70" and "min_successive_detections s = 0"
    and "successive_detections s = 0" and "odd (reads w)"
  shows "\<exists>s' w'. run [Update, Update] (s, w) = Inr (s', w')
     \<and> get_range s' = Some passing_range \<and> baseline_distance s' = 100
     \<and> distance_threshold s' = 70 \<and> min_successive_detections s' = 0
     \<and> successive_detections s' = 0 \<and> odd (reads w')
     \<and> num_detections s' = num_detections s + 1"
  using assms by (auto simp: update_eval wrap_eval passing_range_def split: option.splits)

lemma many_passages:
  assumes "get_range s = Some passing_range" and "baseline_distance s = 100"
    and "distance_threshold s = 70" and "min_successive_detections s = 0"
    and "successive_detections s = 0" and "odd (reads w)"
  shows "\<exists>s' w'. run (passages n) (s, w) = Inr (s', w')
     \<and> get_range s' = Some passing_range \<and> baseline_distance s' = 100
     \<and> distance_threshold s' = 70 \<and> min_successive_detections s' = 0
     \<and> successive_detections s' = 0 \<and> odd (reads w')
     \<and> num_detections s' = num_detections s + of_nat n"
  using assms
proof (induction n arbitrary: s w)
  case 0
  then show ?case by (simp add: passages_def)
next
  case (Suc n)
  from one_passage [OF Suc.prems] obtain s1 w1
    where r1: "run [Update, Update] (s, w) = Inr (s1, w1)"
      and i1: "get_range s1 = Some passing_range" "baseline_distance s1 = 100"
        "distance_threshold s1 = 70" "min_successive_detections s1 = 0"
        "successive_detections s1 = 0" "odd (reads w1)"
      and n1: "num_detections s1 = num_detections s + 1"
    by (elim exE conjE)
  from Suc.IH [OF i1] obtain s' w'
    where r: "run (passages n) (s1, w1) = Inr (s', w')"
      and i: "get_range s' = Some passing_range" "baseline_distance s' = 100"
        "distance_threshold s' = 70" "min_successive_detections s' = 0"
        "successive_detections s' = 0" "odd (reads w')"
      and n: "num_detections s' = num_detections s1 + of_nat n"
    by (elim exE conjE)
  have p: "passages (Suc n) = [Update, Update] @ passages n"
    by (simp add: passages_def)
  have "run (passages (Suc n)) (s, w) = Inr (s', w')"
    unfolding p run_append by (simp only: r1 r sum.case)
  moreover have "num_detections s' = num_detections s + of_nat (Suc n)"
    by (simp add: n n1)
  ultimately show ?case
    using i by (intro exI [of _ s'] exI [of _ w']) simp
qed

text \<open>
  C7 as stated fails when the count wraps around. After \<^verbatim>\<open>start()\<close> and 4294967295
  passages \<^verbatim>\<open>num_detections\<close> is 4294967295; the next call of \<^verbatim>\<open>update()\<close> confirms
  one more event, and \<^verbatim>\<open>num_detections\<close> is 0.
\<close>

theorem num_detections_wraps_counterexample:
  "\<exists>s1 w1 s2 w2.
      run (passages 4294967295) (start patrolling world0) = Inr (s1, w1)
    \<and> run [Update] (s1, w1) = Inr (s2, w2)
    \<and> num_detections s1 = 4294967295 \<and> num_detections s2 = 0
    \<and> num_detections s2 < num_detections s1"
proof -
  from passing_start obtain s w
    where st: "start patrolling world0 = (s, w)"
      and i: "get_range s = Some passing_range" "baseline_distance s = 100"
        "distance_threshold s = 70" "min_successive_detections s = 0"
        "successive_detections s = 0"
      and z: "num_detections s = 0" and rd: "reads w = 1"
    by (elim exE conjE)
  from rd have e: "odd (reads w)"
    by simp
  from many_passages [OF i e, where n = 4294967295] obtain s1 w1
    where r: "run (passages 4294967295) (s, w) = Inr (s1, w1)"
      and i1: "get_range s1 = Some passing_range" "baseline_distance s1 = 100"
        "distance_threshold s1 = 70" "min_successive_detections s1 = 0"
        "successive_detections s1 = 0" "odd (reads w1)"
      and n: "num_detections s1 = num_detections s + of_nat 4294967295"
    by (elim exE conjE)
  from n z have n1: "num_detections s1 = 4294967295"
    by simp
  from i1 obtain s2 w2 where u: "run [Update] (s1, w1) = Inr (s2, w2)"
    and n2: "num_detections s2 = num_detections s1 + 1"
    by (auto simp: update_eval wrap_eval passing_range_def split: option.splits)
  from n2 n1 have z2: "num_detections s2 = 0"
    by simp
  have "(0 :: ulong) < 4294967295"
    by simp
  with n1 z2 have "num_detections s2 < num_detections s1"
    by simp
  with r u n1 z2 show ?thesis
    unfolding st by (intro exI [of _ s1] exI [of _ w1] exI [of _ s2] exI [of _ w2] conjI)
qed

subsection \<open>Repeated samples with nothing in front of the sensor\<close>

text \<open>
  Once the counter is 0 and \<^verbatim>\<open>distance\<close> holds the reading the sensor keeps returning,
  a reading that is not a detection, no call changes the object or calls a callback.
\<close>

lemma quiet_fixed_point:
  assumes "get_range s = Some f" and "successive_detections s = 0" and "distance s = r"
    and "\<forall>k\<ge>reads w. f k = r"
    and "wrap_long (baseline_distance s - r) \<le> distance_threshold s"
  shows "\<exists>w'. run cs (s, w) = Inr (s, w') \<and> fired w' = fired w \<and> reads w \<le> reads w'"
  using assms(4)
proof (induction cs arbitrary: w)
  case Nil
  then show ?case by simp
next
  case (Cons c cs)
  have r: "f (reads w) = r"
    using Cons.prems by simp
  have "\<exists>w1. step c (s, w) = Inr (s, w1) \<and> fired w1 = fired w \<and> reads w \<le> reads w1"
  proof (cases c)
    case Update
    have "s\<lparr>distance := r, successive_detections := 0\<rparr> = s"
      using assms(2,3) by (metis tripwire.surjective tripwire.update_convs(3,17))
    then show ?thesis
      using assms(1,2,5) r Update by (simp add: update_eval)
  next
    case ResetEventStatus
    have "s\<lparr>successive_detections := 0\<rparr> = s"
      using assms(2) by (metis tripwire.surjective tripwire.update_convs(17))
    then show ?thesis
      using ResetEventStatus by (simp add: reset_event_status_def)
  next
    case (Elapse d)
    then show ?thesis by simp
  qed
  then obtain w1 where s1: "step c (s, w) = Inr (s, w1)"
    and f1: "fired w1 = fired w" and r1: "reads w \<le> reads w1"
    by (elim exE conjE)
  from Cons.prems r1 have "\<forall>k\<ge>reads w1. f k = r"
    by simp
  from Cons.IH [OF this] obtain w' where "run cs (s, w1) = Inr (s, w')"
    "fired w' = fired w1" "reads w1 \<le> reads w'"
    by (elim exE conjE)
  with s1 f1 r1 show ?case
    by (intro exI [of _ w']) simp
qed

text \<open>
  C9, as amended. Let the sensor keep returning the same reading, one that line 83 does
  not take for a detection. The first \<^verbatim>\<open>update()\<close> leaves \<^verbatim>\<open>num_detections\<close> and
  \<^verbatim>\<open>event_start_time\<close> as they are; it calls the end callback when the counter was
  positive and an end callback is set, and calls nothing otherwise. Whatever calls follow,
  of \<^verbatim>\<open>update()\<close> or \<^verbatim>\<open>reset_event_status()\<close> and any time apart, they leave the whole
  object as the first call left it and call no callback.
\<close>

theorem repeated_quiet_updates:
  assumes "get_range s = Some f" and "\<forall>k\<ge>reads w. f k = r"
    and "\<not> detected s w"
  shows "\<exists>s1 w1 wn. update s w = Inr (s1, w1)
           \<and> num_detections s1 = num_detections s
           \<and> event_start_time s1 = event_start_time s
           \<and> fired w1 = fired w @ (if 0 < successive_detections s
                then (case event_end s of None \<Rightarrow> [] | Some cb \<Rightarrow> [cb]) else [])
           \<and> run cs (s1, w1) = Inr (s1, wn)
           \<and> fired wn = fired w1"
proof -
  have r: "f (reads w) = r"
    using assms(2) by simp
  have q: "wrap_long (baseline_distance s - r) \<le> distance_threshold s"
    using assms(1,3) r by (simp add: detected_def)
  define s1 where "s1 = (if 0 < successive_detections s
    then s\<lparr>distance := r, last_event_width := clock w - event_start_time s,
           successive_detections := 0\<rparr>
    else s\<lparr>distance := r, successive_detections := 0\<rparr>)"
  define w1 where "w1 = (if 0 < successive_detections s
    then invoke_if_set (event_end s) (w\<lparr>reads := Suc (reads w)\<rparr>)
    else w\<lparr>reads := Suc (reads w)\<rparr>)"
  have u: "update s w = Inr (s1, w1)"
    using assms(1) q r by (simp add: update_def Let_def call_range_def millis_def s1_def w1_def)
  have k: "num_detections s1 = num_detections s" "event_start_time s1 = event_start_time s"
    "get_range s1 = Some f" "successive_detections s1 = 0" "distance s1 = r"
    "wrap_long (baseline_distance s1 - r) \<le> distance_threshold s1"
    using assms(1) q by (simp_all add: s1_def)
  have f: "fired w1 = fired w @ (if 0 < successive_detections s
                then (case event_end s of None \<Rightarrow> [] | Some cb \<Rightarrow> [cb]) else [])"
    by (simp add: w1_def invoke_if_set_def invoke_def split: option.splits)
  have "reads w1 = Suc (reads w)"
    by (simp add: w1_def invoke_if_set_def invoke_def split: option.splits)
  with assms(2) have "\<forall>k\<ge>reads w1. f k = r"
    by simp
  from quiet_fixed_point [OF k(3,4,5) this k(6), of cs]
  obtain wn where "run cs (s1, w1) = Inr (s1, wn)" "fired wn = fired w1"
    by (elim exE conjE)
  with u k(1,2) f show ?thesis
    by (intro exI [of _ s1] exI [of _ w1] exI [of _ wn]) simp
qed

text \<open>
  The object \<open>leaving\<close> after \<^verbatim>\<open>start()\<close> and one detection: an event is confirmed and
  the counter is 1.
\<close>

lemma leaving_run:
  "\<exists>s w. run [Update] (start leaving world0) = Inr (s, w)
     \<and> get_range s = Some (readings [100, 20] 100) \<and> reads w = 2
     \<and> baseline_distance s = 100 \<and> distance_threshold s = 70
     \<and> successive_detections s = 1 \<and> event_end s = Some 2
     \<and> num_detections s = 1 \<and> fired w = [] \<and> \<not> detected s w"
  by (simp add: leaving_def start_def calibrate_eval update_eval set_event_end_callback_def
       readings_def detected_def)

text \<open>
  C9 as stated fails in a state where the counter is positive. From the state above, two
  calls of \<^verbatim>\<open>update()\<close> that both read 100, which is not a detection, call the end
  callback: it is the first of them that does.
\<close>

theorem quiet_update_fires_counterexample:
  "\<exists>s w s' w'. run [Update] (start leaving world0) = Inr (s, w)
     \<and> readings [100, 20] 100 (reads w) = 100
     \<and> readings [100, 20] 100 (Suc (reads w)) = 100
     \<and> \<not> detected s w
     \<and> run [Update, Update] (s, w) = Inr (s', w')
     \<and> fired w = [] \<and> fired w' = [2]"
proof -
  from leaving_run obtain s w where r: "run [Update] (start leaving world0) = Inr (s, w)"
    and h: "get_range s = Some (readings [100, 20] 100)" "reads w = 2"
      "baseline_distance s = 100" "distance_threshold s = 70"
      "successive_detections s = 1" "event_end s = Some 2" "fired w = []"
    and b: "\<not> detected s w"
    by (elim exE conjE)
  have q: "readings [100, 20] 100 (reads w) = 100"
    "readings [100, 20] 100 (Suc (reads w)) = 100"
    by (simp_all add: h(2) readings_after)
  have "\<exists>s' w'. run [Update, Update] (s, w) = Inr (s', w') \<and> fired w' = [2]"
    using h q by (simp add: update_eval wrap_eval)
  then obtain s' w' where "run [Update, Update] (s, w) = Inr (s', w')" "fired w' = [2]"
    by (elim exE conjE)
  with r q b h(7) show ?thesis
    by (intro exI [of _ s] exI [of _ w] exI [of _ s'] exI [of _ w'] conjI)
qed

text \<open>
  The amended C9 from the same state: the first call reads 100 and calls the end callback,
  \<^verbatim>\<open>num_detections\<close> stays 1; further calls change nothing and call nothing.
\<close>

theorem repeated_quiet_updates_witness:
  "\<exists>s w s1 w1 wn. run [Update] (start leaving world0) = Inr (s, w)
     \<and> get_range s = Some (readings [100, 20] 100)
     \<and> (\<forall>k\<ge>reads w. readings [100, 20] 100 k = 100)
     \<and> \<not> detected s w
     \<and> successive_detections s = 1
     \<and> update s w = Inr (s1, w1)
     \<and> num_detections s1 = 1 \<and> event_start_time s1 = event_start_time s
     \<and> fired w = [] \<and> fired w1 = [2]
     \<and> run [Elapse 7, Update, ResetEventStatus, Update] (s1, w1) = Inr (s1, wn)
     \<and> fired wn = [2]"
proof -
  from leaving_run obtain s w where r: "run [Update] (start leaving world0) = Inr (s, w)"
    and h: "get_range s = Some (readings [100, 20] 100)" "reads w = 2"
      "baseline_distance s = 100" "distance_threshold s = 70"
      "successive_detections s = 1" "event_end s = Some 2" "num_detections s = 1"
      "fired w = []"
    and b: "\<not> detected s w"
    by (elim exE conjE)
  have q: "\<forall>k\<ge>reads w. readings [100, 20] 100 k = 100"
    by (simp add: h(2) readings_after)
  from repeated_quiet_updates [OF h(1) q b, of "[Elapse 7, Update, ResetEventStatus, Update]"]
  obtain s1 w1 wn where u: "update s w = Inr (s1, w1)"
    and k: "num_detections s1 = num_detections s" "event_start_time s1 = event_start_time s"
    and f: "fired w1 = fired w @ (if 0 < successive_detections s
                then (case event_end s of None \<Rightarrow> [] | Some cb \<Rightarrow> [cb]) else [])"
    and n: "run [Elapse 7, Update, ResetEventStatus, Update] (s1, w1) = Inr (s1, wn)"
      "fired wn = fired w1"
    by (elim exE conjE)
  from f h have f1: "fired w1 = [2]"
    by simp
  with n(2) have fn: "fired wn = [2]"
    by simp
  from k(1) h(7) have n1: "num_detections s1 = 1"
    by simp
  from r h(1) q b h(5) u n1 k(2) h(8) f1 n(1) fn show ?thesis
    by (intro exI [of _ s] exI [of _ w] exI [of _ s1] exI [of _ w1] exI [of _ wn] conjI)
qed

subsection \<open>No range function\<close>

text \<open>
  C3. An object built with no range function, in zeroed storage: \<^verbatim>\<open>calibrate()\<close> tests
  the pointer and changes nothing, but \<^verbatim>\<open>update()\<close> calls through the null pointer,
  before and after \<^verbatim>\<open>start()\<close>.
\<close>

theorem update_without_range_source:
  "calibrate (Tripwire None zeroed) world0 = (Tripwire None zeroed, world0)
   \<and> update (Tripwire None zeroed) world0 = Inl NullCall
   \<and> update (fst (start (Tripwire None zeroed) world0)) (snd (start (Tripwire None zeroed) world0))
       = Inl NullCall"
  by (simp add: calibrate_def start_def update_def Tripwire_def zeroed_def)

section \<open>Setters\<close>

text \<open>
  C8. Each of the three setters leaves the object as it is when given a null pointer,
  whatever was stored before, and stores a non-null pointer in its own member, changing
  nothing else.
\<close>

theorem setters_ignore_null:
  "set_range_function None s = s
   \<and> set_event_start_callback None s = s
   \<and> set_event_end_callback None s = s
   \<and> set_range_function (Some f) s = s\<lparr>get_range := Some f\<rparr>
   \<and> set_event_start_callback (Some a) s = s\<lparr>event_start := Some a\<rparr>
   \<and> set_event_end_callback (Some b) s = s\<lparr>event_end := Some b\<rparr>"
  by (simp add: set_range_function_def set_event_start_callback_def
      set_event_end_callback_def)


end
